theory Spec2Isabelle
  imports Main "HOL-Library.Sublist" "HOL-Library.Log_Nat"
begin

section \<open>Data model\<close>

text \<open>
  The auction record carries the columns of the \<^verbatim>\<open>auctions\<close> table that the bidding rules read
  (\<^verbatim>\<open>id\<close>, \<^verbatim>\<open>sellerId\<close>, \<^verbatim>\<open>status\<close>, the prices, \<^verbatim>\<open>startTime\<close>, \<^verbatim>\<open>endTime\<close>, \<^verbatim>\<open>winnerId\<close>) and
  the \<^verbatim>\<open>duration\<close> that \<^verbatim>\<open>maybeExtendAuction\<close> adds to \<^verbatim>\<open>startTime.getTime()\<close>.

  Monetary values are rational numbers. A JavaScript \<^verbatim>\<open>number\<close> is the rational it denotes
  (see the next section for its arithmetic); the amounts of the spec's ledger are exact.
  Instants are the millisecond counts that \<^verbatim>\<open>Date.getTime()\<close> returns; comparing two \<^verbatim>\<open>Date\<close>
  objects with \<^verbatim>\<open>>\<close> compares these counts. The clock read \<^verbatim>\<open>new Date()\<close> is an explicit
  argument \<open>now\<close>.
\<close>

datatype AuctionStatus = DRAFT | SCHEDULED | ACTIVE | ENDED | SOLD | CANCELLED

record Auction =
  auction_id :: string
  sellerId :: string
  status :: AuctionStatus
  startingPrice :: rat
  currentPrice :: rat
  bidIncrement :: rat
  startTime :: int
  duration :: int
  endTime :: int
  winnerId :: "string option"

section \<open>Constants (\<^verbatim>\<open>src/lib/constants.ts\<close>)\<close>

definition WINDOW_MS :: int where
  "WINDOW_MS = 2 * 60 * 1000"

definition EXTENSION_MS :: int where
  "EXTENSION_MS = 2 * 60 * 1000"

definition MAX_EXTENSION_MS :: int where
  "MAX_EXTENSION_MS = 30 * 60 * 1000"

section \<open>JavaScript numbers\<close>

text \<open>
  \<^verbatim>\<open>validateBid\<close> adds and compares prices as JavaScript numbers, that is IEEE 754 binary64
  values. A finite number is modelled by the rational it denotes, so \<^verbatim>\<open><\<close> on numbers is \<open><\<close>
  on rationals, and \<^verbatim>\<open>x + y\<close> is the exact sum rounded to the nearest number, a tie going to the
  even significand. \<open>toNumber\<close> is this rounding to 53 significant bits: \<open>ilog2\<close> finds the
  binade of the argument, \<open>pow2 (ilog2 \<bar>x\<bar> - 52)\<close> is the distance of neighbouring numbers in
  that binade, and the argument is rounded to a whole multiple of it. It is also how a
  decimal literal such as \<^verbatim>\<open>10.06\<close> is read. \<^verbatim>\<open>NaN\<close>, the infinities and overflow past
  \<open>2 ^ 1024\<close> are not modelled; the sum of two numbers never needs the subnormal spacing.
\<close>

definition pow2 :: "int \<Rightarrow> rat" where
  "pow2 e = (if 0 \<le> e then 2 ^ nat e else 1 / 2 ^ nat (- e))"

text \<open>For positive \<open>x\<close>, the \<open>e\<close> with \<open>pow2 e \<le> x < pow2 (e + 1)\<close>.\<close>

definition ilog2 :: "rat \<Rightarrow> int" where
  "ilog2 x =
     (let (p, q) = quotient_of x;
          d = bitlen p - bitlen q
      in if pow2 d \<le> x then d else d - 1)"

definition roundHalfEven :: "rat \<Rightarrow> int" where
  "roundHalfEven q =
     (let f = \<lfloor>q\<rfloor>; r = q - of_int f
      in if r < 1 / 2 then f
         else if 1 / 2 < r then f + 1
         else if even f then f else f + 1)"

definition toNumber :: "rat \<Rightarrow> rat" where
  "toNumber x =
     (if x = 0 then 0
      else let u = pow2 (ilog2 \<bar>x\<bar> - 52)
           in of_int (roundHalfEven (x / u)) * u)"

definition number_add :: "rat \<Rightarrow> rat \<Rightarrow> rat" where
  "number_add x y = toNumber (x + y)"

section \<open>Bid validation (\<^verbatim>\<open>validateBid\<close>)\<close>

text \<open>
  \<^verbatim>\<open>new BidError(code, payload)\<close>: the code string and, for \<^verbatim>\<open>TOO_LOW\<close>, the payload
  \<^verbatim>\<open>{ minBid }\<close>.
\<close>

datatype BidError = BidError string "rat option"

text \<open>
  \<^verbatim>\<open>!userId\<close> holds for a missing value (\<^verbatim>\<open>undefined\<close>, \<^verbatim>\<open>null\<close>: \<open>None\<close>) and for the empty
  string.
\<close>

definition falsy :: "string option \<Rightarrow> bool" where
  "falsy userId = (case userId of None \<Rightarrow> True | Some s \<Rightarrow> s = [])"

text \<open>
  The function returns nothing on success and throws otherwise: \<open>Inr ()\<close> and \<open>Inl\<close> of the
  error. The \<^verbatim>\<open>if\<close> statements are taken in the order of the source. The prices and the
  amount are numbers, and \<^verbatim>\<open>auction.currentPrice + auction.bidIncrement\<close> is their sum as
  numbers.
\<close>

definition validateBid :: "Auction \<Rightarrow> rat \<Rightarrow> string option \<Rightarrow> int \<Rightarrow> BidError + unit" where
  "validateBid auction bidAmount userId now =
     (if falsy userId then Inl (BidError ''AUTH_REQUIRED'' None)
      else if Some (sellerId auction) = userId then Inl (BidError ''OWN_AUCTION'' None)
      else if status auction \<noteq> ACTIVE then Inl (BidError ''NOT_ACTIVE'' None)
      else if now > endTime auction then Inl (BidError ''ENDED'' None)
      else
        let minBid = number_add (currentPrice auction) (bidIncrement auction)
        in if bidAmount < minBid then Inl (BidError ''TOO_LOW'' (Some minBid))
           else Inr ())"

text \<open>
  Modelled from the spec: the contract \<^verbatim>\<open>admit(auction, bidderId, amount, now)\<close> of the Bid
  Admission Control, with the five checks of the spec in their order, on exact monetary
  values: the minimum is the exact sum of price and increment. It differs from the source's
  \<^verbatim>\<open>validateBid\<close> in that sum only.
\<close>

definition admit :: "Auction \<Rightarrow> string option \<Rightarrow> rat \<Rightarrow> int \<Rightarrow> BidError + unit" where
  "admit a bidder amt now =
     (if falsy bidder then Inl (BidError ''AUTH_REQUIRED'' None)
      else if bidder = Some (sellerId a) then Inl (BidError ''OWN_AUCTION'' None)
      else if status a \<noteq> ACTIVE then Inl (BidError ''NOT_ACTIVE'' None)
      else if now > endTime a then Inl (BidError ''ENDED'' None)
      else if amt < currentPrice a + bidIncrement a
        then Inl (BidError ''TOO_LOW'' (Some (currentPrice a + bidIncrement a)))
      else Inr ())"

section \<open>Anti-sniping (\<^verbatim>\<open>maybeExtendAuction\<close>)\<close>

text \<open>
  \<^verbatim>\<open>originalEnd\<close> is computed inside the function as
  \<^verbatim>\<open>auction.startTime.getTime() + auction.duration\<close>.
\<close>

definition originalEnd :: "Auction \<Rightarrow> int" where
  "originalEnd auction = startTime auction + duration auction"

definition maybeExtendAuction :: "Auction \<Rightarrow> int \<Rightarrow> int" where
  "maybeExtendAuction auction now =
     (let timeLeft = endTime auction - now;
          twoMinutes = 2 * 60 * 1000;
          maxExtension = 30 * 60 * 1000
      in if timeLeft < twoMinutes then
           let maxEnd = originalEnd auction + maxExtension;
               newEnd = now + twoMinutes
           in if newEnd > maxEnd then maxEnd else newEnd
         else endTime auction)"

section \<open>Event emitter (\<^verbatim>\<open>BidEmitter\<close>)\<close>

text \<open>
  \<^verbatim>\<open>listeners\<close> is a \<^verbatim>\<open>Map<string, Set<Listener>>\<close>. The data of a \<^verbatim>\<open>Set\<close> is the list of its
  entries in insertion order, in which a deleted entry leaves an empty slot (\<open>None\<close>), as
  ECMAScript defines it: \<^verbatim>\<open>add\<close> appends a value that is not yet an entry, \<^verbatim>\<open>delete\<close> empties
  the entry of the value, and \<^verbatim>\<open>forEach\<close> walks the list by index, reads its length anew at
  every step and skips the empty slots. So a value deleted before the walk reaches it is not
  visited, and a value added during the walk is. \<open>live\<close> lists the values of a set. A
  listener is known by its identity \<open>'l\<close> (function objects are compared by reference).
\<close>

fun live :: "'l option list \<Rightarrow> 'l list" where
  "live [] = []"
| "live (None # s) = live s"
| "live (Some l # s) = l # live s"

definition Set_add :: "'l \<Rightarrow> 'l option list \<Rightarrow> 'l option list" where
  "Set_add l s = (if Some l \<in> set s then s else s @ [Some l])"

definition Set_delete :: "'l \<Rightarrow> 'l option list \<Rightarrow> 'l option list" where
  "Set_delete l s = map (\<lambda>x. if x = Some l then None else x) s"

record 'l BidEmitter =
  listeners :: "string \<Rightarrow> 'l option list option"

definition newBidEmitter :: "'l BidEmitter" where
  "newBidEmitter = \<lparr> listeners = Map.empty \<rparr>"

text \<open>
  The closure that \<^verbatim>\<open>subscribe\<close> returns:
  \<^verbatim>\<open>() => { this.listeners.get(auctionId)?.delete(listener); }\<close>. The optional chaining makes
  the call a no-op when the map has no entry for the auction.
\<close>

definition unsubscribe :: "string \<Rightarrow> 'l \<Rightarrow> 'l BidEmitter \<Rightarrow> 'l BidEmitter" where
  "unsubscribe auctionId listener em =
     (case listeners em auctionId of
        None \<Rightarrow> em
      | Some s \<Rightarrow> em\<lparr> listeners := (listeners em)(auctionId \<mapsto> Set_delete listener s) \<rparr>)"

definition subscribe ::
  "'l BidEmitter \<Rightarrow> string \<Rightarrow> 'l \<Rightarrow> 'l BidEmitter \<times> ('l BidEmitter \<Rightarrow> 'l BidEmitter)" where
  "subscribe em auctionId listener =
     (let em1 = (if listeners em auctionId = None
                 then em\<lparr> listeners := (listeners em)(auctionId \<mapsto> []) \<rparr>
                 else em);
          s = (case listeners em1 auctionId of None \<Rightarrow> [] | Some s \<Rightarrow> s);
          em2 = em1\<lparr> listeners := (listeners em1)(auctionId \<mapsto> Set_add listener s) \<rparr>
      in (em2, unsubscribe auctionId listener))"

text \<open>
  A listener is a callback \<^verbatim>\<open>(event, data) => void\<close>. What it does when called, as far as the
  emitter is concerned: the calls it makes on the emitter, in order (\<^verbatim>\<open>subscribe\<close>, a call of
  an unsubscribe handle, \<^verbatim>\<open>emit\<close>), and whether it then throws (\<open>True\<close>) or returns. The
  listener of the SSE route calls \<^verbatim>\<open>controller.enqueue\<close>, which throws on a closed stream.
\<close>

datatype ('l, 'd) Call =
    CallSubscribe string 'l
  | CallUnsubscribe string 'l
  | CallEmit string string 'd

datatype ('l, 'd) Reaction = Reaction "('l, 'd) Call list" bool

text \<open>
  What an \<^verbatim>\<open>emit\<close> leaves: the emitter after it, the listener calls made, in order, each as
  auction, listener, event and data, and whether it threw.
\<close>

type_synonym ('l, 'd) Emitted = "'l BidEmitter \<times> (string \<times> 'l \<times> string \<times> 'd) list \<times> bool"

text \<open>
  The calls of one listener body, where \<open>emitF\<close> is \<^verbatim>\<open>emit\<close>. An \<^verbatim>\<open>emit\<close> that throws inside
  the body ends the body, which throws in turn.
\<close>

fun doCalls ::
  "('l BidEmitter \<Rightarrow> string \<Rightarrow> string \<Rightarrow> 'd \<Rightarrow> ('l, 'd) Emitted option) \<Rightarrow>
   'l BidEmitter \<Rightarrow> ('l, 'd) Call list \<Rightarrow> ('l, 'd) Emitted option" where
  "doCalls emitF em [] = Some (em, [], False)"
| "doCalls emitF em (CallSubscribe a l # cs) = doCalls emitF (fst (subscribe em a l)) cs"
| "doCalls emitF em (CallUnsubscribe a l # cs) = doCalls emitF (unsubscribe a l em) cs"
| "doCalls emitF em (CallEmit a e d # cs) =
     (case emitF em a e d of
        None \<Rightarrow> None
      | Some (em1, t1, thrown1) \<Rightarrow>
          if thrown1 then Some (em1, t1, True)
          else (case doCalls emitF em1 cs of
                  None \<Rightarrow> None
                | Some (em2, t2, thrown2) \<Rightarrow> Some (em2, t1 @ t2, thrown2)))"

text \<open>
  \<^verbatim>\<open>this.listeners.get(auctionId)?.forEach(listener => { listener(event, data); })\<close>, from slot
  \<open>i\<close> on. With no entry for the auction nothing is called. The set is read from the emitter at
  every step: the map never replaces the set of an auction by another one, so this is the set
  that \<^verbatim>\<open>get\<close> returned, as the listeners called so far have left it. The source catches
  nothing: a listener that throws ends the loop, and \<^verbatim>\<open>emit\<close> throws.

  The loop need not end (a listener may subscribe a further listener at every call), so it
  runs on fuel: a visit of a slot takes one unit, and a listener's calls run on what is left;
  \<open>None\<close> says that the fuel ran out.
\<close>

fun forEach ::
  "nat \<Rightarrow> ('l \<Rightarrow> string \<Rightarrow> 'd \<Rightarrow> ('l, 'd) Reaction) \<Rightarrow> 'l BidEmitter \<Rightarrow> string \<Rightarrow> string \<Rightarrow> 'd \<Rightarrow> nat \<Rightarrow>
   ('l, 'd) Emitted option" where
  "forEach 0 beh em auctionId event data i = None"
| "forEach (Suc n) beh em auctionId event data i =
     (case listeners em auctionId of
        None \<Rightarrow> Some (em, [], False)
      | Some s \<Rightarrow>
          if length s \<le> i then Some (em, [], False)
          else
            (case s ! i of
               None \<Rightarrow> forEach n beh em auctionId event data (Suc i)
             | Some listener \<Rightarrow>
                 (case beh listener event data of
                    Reaction cs throws \<Rightarrow>
                      (case doCalls (\<lambda>em1 a e d. forEach n beh em1 a e d 0) em cs of
                         None \<Rightarrow> None
                       | Some (em1, t1, thrown1) \<Rightarrow>
                           if thrown1 \<or> throws
                           then Some (em1, (auctionId, listener, event, data) # t1, True)
                           else
                             (case forEach n beh em1 auctionId event data (Suc i) of
                                None \<Rightarrow> None
                              | Some (em2, t2, thrown2) \<Rightarrow>
                                  Some (em2, (auctionId, listener, event, data) # t1 @ t2, thrown2))))))"

definition emit ::
  "nat \<Rightarrow> ('l \<Rightarrow> string \<Rightarrow> 'd \<Rightarrow> ('l, 'd) Reaction) \<Rightarrow> 'l BidEmitter \<Rightarrow> string \<Rightarrow> string \<Rightarrow> 'd \<Rightarrow>
   ('l, 'd) Emitted option" where
  "emit fuel beh em auctionId event data = forEach fuel beh em auctionId event data 0"

text \<open>
  The slots of an auction's set (none when the map has no entry), and the listeners of the
  auction, in the order of the set.
\<close>

definition entries :: "'l BidEmitter \<Rightarrow> string \<Rightarrow> 'l option list" where
  "entries em aid = (case listeners em aid of None \<Rightarrow> [] | Some s \<Rightarrow> s)"

definition subs :: "'l BidEmitter \<Rightarrow> string \<Rightarrow> 'l list" where
  "subs em aid = live (entries em aid)"

text \<open>Every listener returns normally, whatever it is called with, and makes no call on the emitter.\<close>

definition quiet :: "('l \<Rightarrow> string \<Rightarrow> 'd \<Rightarrow> ('l, 'd) Reaction) \<Rightarrow> bool" where
  "quiet beh = (\<forall>l e d. beh l e d = Reaction [] False)"

text \<open>
  A history of calls on one emitter from outside the listeners: \<^verbatim>\<open>subscribe(a, l)\<close>, a call of
  the handle that such a \<^verbatim>\<open>subscribe(a, l)\<close> returned, and \<^verbatim>\<open>emit(a, e, d)\<close>. Running it returns
  the emitter and the listener calls made. An \<^verbatim>\<open>emit\<close> that throws leaves the exception with
  its caller, and the history goes on.
\<close>

datatype ('l, 'd) EmitterOp =
    Subscribe string 'l
  | Unsubscribe string 'l
  | Emit string string 'd

fun step ::
  "nat \<Rightarrow> ('l \<Rightarrow> string \<Rightarrow> 'd \<Rightarrow> ('l, 'd) Reaction) \<Rightarrow> 'l BidEmitter \<Rightarrow> ('l, 'd) EmitterOp \<Rightarrow>
   ('l BidEmitter \<times> (string \<times> 'l \<times> string \<times> 'd) list) option" where
  "step fuel beh em (Subscribe a l) = Some (fst (subscribe em a l), [])"
| "step fuel beh em (Unsubscribe a l) = Some (unsubscribe a l em, [])"
| "step fuel beh em (Emit a e d) =
     (case emit fuel beh em a e d of
        None \<Rightarrow> None
      | Some (em1, t, thrown) \<Rightarrow> Some (em1, t))"

fun run ::
  "nat \<Rightarrow> ('l \<Rightarrow> string \<Rightarrow> 'd \<Rightarrow> ('l, 'd) Reaction) \<Rightarrow> 'l BidEmitter \<Rightarrow> ('l, 'd) EmitterOp list \<Rightarrow>
   ('l BidEmitter \<times> (string \<times> 'l \<times> string \<times> 'd) list) option" where
  "run fuel beh em [] = Some (em, [])"
| "run fuel beh em (x # xs) =
     (case step fuel beh em x of
        None \<Rightarrow> None
      | Some (em1, t1) \<Rightarrow>
          (case run fuel beh em1 xs of
             None \<Rightarrow> None
           | Some (em2, t2) \<Rightarrow> Some (em2, t1 @ t2)))"

text \<open>
  Whether a listener is subscribed to an auction after a history: the last \<^verbatim>\<open>subscribe\<close> or
  unsubscribe call for that pair decides, and \<open>b\<close> says how it stood before the history.
\<close>

fun isSubscribed :: "bool \<Rightarrow> ('l, 'd) EmitterOp list \<Rightarrow> string \<Rightarrow> 'l \<Rightarrow> bool" where
  "isSubscribed b [] aid l = b"
| "isSubscribed b (Subscribe a x # ops) aid l = isSubscribed (b \<or> (a = aid \<and> x = l)) ops aid l"
| "isSubscribed b (Unsubscribe a x # ops) aid l = isSubscribed (b \<and> \<not> (a = aid \<and> x = l)) ops aid l"
| "isSubscribed b (Emit a e d # ops) aid l = isSubscribed b ops aid l"

text \<open>What one listener saw of one auction, and what was emitted for that auction.\<close>

definition observed :: "string \<Rightarrow> 'l \<Rightarrow> (string \<times> 'l \<times> string \<times> 'd) list \<Rightarrow> (string \<times> 'd) list" where
  "observed aid l trace =
     map (\<lambda>(a, x, e, d). (e, d)) (filter (\<lambda>(a, x, e, d). a = aid \<and> x = l) trace)"

fun emitted :: "string \<Rightarrow> ('l, 'd) EmitterOp list \<Rightarrow> (string \<times> 'd) list" where
  "emitted aid [] = []"
| "emitted aid (Emit a e d # ops) = (if a = aid then (e, d) # emitted aid ops else emitted aid ops)"
| "emitted aid (x # ops) = emitted aid ops"

section \<open>SSE event payload (\<^verbatim>\<open>BidEvent\<close>)\<close>

record EventBidder =
  bidder_id :: string
  bidder_name :: string

record EventAuction =
  ev_currentPrice :: rat
  ev_endTime :: int

record BidEvent =
  ev_id :: string
  ev_amount :: rat
  ev_createdAt :: int
  ev_bidder :: EventBidder
  ev_auction :: EventAuction

section \<open>Ledger\<close>

text \<open>The columns of the \<^verbatim>\<open>bids\<close> table.\<close>

record Bid =
  bidId :: string
  bidAuctionId :: string
  bidderId :: string
  amount :: rat
  createdAt :: int

text \<open>
  Modelled from the spec: the Auction Ledger, one auction with its bids in the order in which
  they were applied.
\<close>

record Ledger =
  auction :: Auction
  bids :: "Bid list"

text \<open>
  Modelled from the spec: one \<^verbatim>\<open>placeBid\<close> request. It carries the caller's identity as the
  identity provider resolved it (none when it did not), the caller's display name, the
  amount, the time at which the request enters the serialized section, and the identifier
  the store gives the new row.
\<close>

record Attempt =
  att_bidId :: string
  att_userId :: "string option"
  att_userName :: string
  att_amount :: rat
  att_now :: int

text \<open>
  Modelled from the spec: what a request returns, \<^verbatim>\<open>{rejected: reason}\<close> or
  \<^verbatim>\<open>{accepted: Bid}\<close>, with the ledger after it and the events it published.
\<close>

record Processed =
  outcome :: "BidError + Bid"
  ledger :: Ledger
  published :: "BidEvent list"

text \<open>
  Modelled from the spec: the \<^verbatim>\<open>cumulativeExtension\<close> of the data model. The source stores no
  such column; the data model fixes it by \<^verbatim>\<open>endTime - originalEndTime == cumulativeExtension\<close>,
  and the source's "Maximum extension: 30 minutes total" bounds the same difference.
\<close>

definition cumulativeExtension :: "Auction \<Rightarrow> int" where
  "cumulativeExtension a = endTime a - originalEnd a"

text \<open>
  The bound of the data model on the end time: it lies between the original end and the
  original end plus the cap.
\<close>

definition bounded :: "Auction \<Rightarrow> bool" where
  "bounded a = (originalEnd a \<le> endTime a \<and> endTime a \<le> originalEnd a + MAX_EXTENSION_MS)"

text \<open>
  Modelled from the spec: the application of an accepted bid (the route handler
  \<^verbatim>\<open>app/api/auctions/[id]/bids/route.ts\<close> is not among the sources). "On accepted bid:
  \<^verbatim>\<open>currentPrice := amount\<close>; winner candidate := bidderId; end time recomputed via Anti-Sniping
  Policy", where "the caller must additionally clamp with \<^verbatim>\<open>max(result, auction.endTime)\<close>". The
  bid is appended to the auction's bids, so the winner candidate is the bidder of the last bid.
\<close>

definition applyBid :: "Ledger \<Rightarrow> string \<Rightarrow> Attempt \<Rightarrow> Ledger \<times> Bid" where
  "applyBid L bidder att =
     (let a = auction L;
          newEnd = max (maybeExtendAuction a (att_now att)) (endTime a);
          a1 = a\<lparr> currentPrice := att_amount att, endTime := newEnd \<rparr>;
          b = \<lparr> bidId = att_bidId att, bidAuctionId = auction_id a, bidderId = bidder,
                amount = att_amount att, createdAt = att_now att \<rparr>
      in (L\<lparr> auction := a1, bids := bids L @ [b] \<rparr>, b))"

text \<open>
  Modelled from the spec: the event of an accepted bid, with the fields of \<^verbatim>\<open>BidEvent\<close>; its
  \<^verbatim>\<open>auction\<close> part holds the price and the end time of the auction after the bid.
\<close>

definition bidEvent :: "Ledger \<Rightarrow> Bid \<Rightarrow> Attempt \<Rightarrow> BidEvent" where
  "bidEvent L b att =
     \<lparr> ev_id = bidId b, ev_amount = amount b, ev_createdAt = createdAt b,
       ev_bidder = \<lparr> bidder_id = bidderId b, bidder_name = att_userName att \<rparr>,
       ev_auction = \<lparr> ev_currentPrice = currentPrice (auction L), ev_endTime = endTime (auction L) \<rparr> \<rparr>"

text \<open>
  Modelled from the spec: admission followed by application, in one step. A rejection returns
  the ledger as it was and publishes nothing; an acceptance applies the bid and publishes one
  event.
\<close>

definition processBid :: "Ledger \<Rightarrow> Attempt \<Rightarrow> Processed" where
  "processBid L att =
     (case admit (auction L) (att_userId att) (att_amount att) (att_now att) of
        Inl e \<Rightarrow> \<lparr> outcome = Inl e, ledger = L, published = [] \<rparr>
      | Inr _ \<Rightarrow>
          let bidder = (case att_userId att of None \<Rightarrow> [] | Some u \<Rightarrow> u);
              (L1, b) = applyBid L bidder att
          in \<lparr> outcome = Inr b, ledger = L1, published = [bidEvent L1 b att] \<rparr>)"



text \<open>
  Modelled from the spec: the serializer runs the requests for one auction strictly one at a
  time. The ledger after a sequence of requests, the bids accepted along it and the events
  published along it, each in the order of processing.
\<close>

fun ledgerAfter :: "Ledger \<Rightarrow> Attempt list \<Rightarrow> Ledger" where
  "ledgerAfter L [] = L"
| "ledgerAfter L (x # xs) = ledgerAfter (ledger (processBid L x)) xs"


fun eventLog :: "Ledger \<Rightarrow> Attempt list \<Rightarrow> BidEvent list" where
  "eventLog L [] = []"
| "eventLog L (x # xs) = published (processBid L x) @ eventLog (ledger (processBid L x)) xs"

text \<open>
  Modelled from the spec: replaying the event log. A \<^verbatim>\<open>bid\<close> event overwrites the price and
  the end time with the ones it carries (for the price this is what the client hook
  \<^verbatim>\<open>useAuctionSSE\<close> does with \<^verbatim>\<open>data.auction.currentPrice\<close>).
\<close>

definition applyEvent :: "Auction \<Rightarrow> BidEvent \<Rightarrow> Auction" where
  "applyEvent a ev =
     a\<lparr> currentPrice := ev_currentPrice (ev_auction ev), endTime := ev_endTime (ev_auction ev) \<rparr>"

definition replay :: "Auction \<Rightarrow> BidEvent list \<Rightarrow> Auction" where
  "replay a evs = foldl applyEvent a evs"

section \<open>Route protection (\<^verbatim>\<open>middleware\<close>)\<close>

datatype Role = USER | ADMIN

record SessionUser =
  user_id :: string
  user_email :: string
  user_name :: string
  role :: Role

record Session =
  user :: "SessionUser option"

record URL =
  origin :: string
  pathname :: string
  searchParams :: "(string \<times> string) list"

record NextRequest =
  nextUrl :: URL

datatype NextResponse = Redirect URL | Next

definition protectedRoutes :: "string list" where
  "protectedRoutes = [''/dashboard'', ''/auctions/create'']"

definition adminRoutes :: "string list" where
  "adminRoutes = [''/admin'']"

text \<open>\<^verbatim>\<open>new URL(path, request.url)\<close> for an absolute path: the origin of the request, no query.\<close>

definition newURL :: "string \<Rightarrow> NextRequest \<Rightarrow> URL" where
  "newURL path request = \<lparr> origin = origin (nextUrl request), pathname = path, searchParams = [] \<rparr>"

text \<open>
  \<^verbatim>\<open>URLSearchParams.set\<close>: the first pair with the name takes the value and the later ones
  go; with no such pair, the pair is appended.
\<close>

fun searchParams_set :: "string \<Rightarrow> string \<Rightarrow> (string \<times> string) list \<Rightarrow> (string \<times> string) list" where
  "searchParams_set k v [] = [(k, v)]"
| "searchParams_set k v ((k1, v1) # ps) =
     (if k1 = k then (k, v) # filter (\<lambda>p. fst p \<noteq> k) ps
      else (k1, v1) # searchParams_set k v ps)"

text \<open>
  \<open>session\<close> is what \<^verbatim>\<open>await auth()\<close> returned: \<^verbatim>\<open>null\<close> or a session, whose \<^verbatim>\<open>user\<close> may be
  absent. \<^verbatim>\<open>String.startsWith\<close> is \<^const>\<open>prefix\<close>, \<^verbatim>\<open>Array.some\<close> is \<^const>\<open>list_ex\<close>.
\<close>

definition middleware :: "NextRequest \<Rightarrow> Session option \<Rightarrow> NextResponse" where
  "middleware request session =
     (let path = pathname (nextUrl request);
          isProtectedRoute = list_ex (\<lambda>route. prefix route path) protectedRoutes;
          isAdminRoute = list_ex (\<lambda>route. prefix route path) adminRoutes
      in if isProtectedRoute \<or> isAdminRoute then
           (case (case session of None \<Rightarrow> None | Some s \<Rightarrow> user s) of
              None \<Rightarrow>
                let loginUrl = newURL ''/login'' request
                in Redirect (loginUrl\<lparr> searchParams :=
                               searchParams_set ''callbackUrl'' path (searchParams loginUrl) \<rparr>)
            | Some u \<Rightarrow>
                if isAdminRoute \<and> role u \<noteq> ADMIN then Redirect (newURL ''/'' request)
                else Next)
         else Next)"

section \<open>Example values\<close>

text \<open>
  A one-day auction at price 100 with increment 5, its ledger with no bids yet, and a request
  of the user \<^verbatim>\<open>bob\<close>.
\<close>

definition exAuction :: Auction where
  "exAuction =
     \<lparr> auction_id = ''a1'', sellerId = ''seller'', status = ACTIVE, startingPrice = 100,
       currentPrice = 100, bidIncrement = 5, startTime = 0, duration = 86400000,
       endTime = 86400000, winnerId = None \<rparr>"

definition exLedger :: Ledger where
  "exLedger = \<lparr> auction = exAuction, bids = [] \<rparr>"

definition exAttempt :: "rat \<Rightarrow> int \<Rightarrow> Attempt" where
  "exAttempt amt now =
     \<lparr> att_bidId = ''b1'', att_userId = Some ''bob'', att_userName = ''Bob'',
       att_amount = amt, att_now = now \<rparr>"

definition exRequest :: "string \<Rightarrow> NextRequest" where
  "exRequest p = \<lparr> nextUrl = \<lparr> origin = ''https://example.test'', pathname = p, searchParams = [] \<rparr> \<rparr>"

definition exSession :: "Role \<Rightarrow> Session" where
  "exSession r =
     \<lparr> user = Some \<lparr> user_id = ''u1'', user_email = ''u1@example.test'', user_name = ''U'', role = r \<rparr> \<rparr>"

text \<open>
  An emitter with the listeners 1 and 2 on auction \<^verbatim>\<open>a1\<close>, and three ways for listeners to
  behave: all return; listener 1 throws; listener 1 calls the unsubscribe handle of listener 2.
\<close>

definition exEmitter :: "nat BidEmitter" where
  "exEmitter = fst (subscribe (fst (subscribe newBidEmitter ''a1'' 1)) ''a1'' 2)"

definition quietListeners :: "nat \<Rightarrow> string \<Rightarrow> int \<Rightarrow> (nat, int) Reaction" where
  "quietListeners l e d = Reaction [] False"

definition throwingFirst :: "nat \<Rightarrow> string \<Rightarrow> int \<Rightarrow> (nat, int) Reaction" where
  "throwingFirst l e d = (if l = 1 then Reaction [] True else Reaction [] False)"

definition unsubscribingFirst :: "nat \<Rightarrow> string \<Rightarrow> int \<Rightarrow> (nat, int) Reaction" where
  "unsubscribingFirst l e d =
     (if l = 1 then Reaction [CallUnsubscribe ''a1'' 2] False else Reaction [] False)"

section \<open>Rounding\<close>

lemma pow2_pos: "0 < pow2 e"
  by (simp add: pow2_def)

lemma pow2_diff: "pow2 (int m - int n) = 2 ^ m / 2 ^ n"
proof (cases "n \<le> m")
  case True
  then have "nat (int m - int n) = m - n" by simp
  with True show ?thesis by (simp add: pow2_def power_diff)
next
  case False
  then have "nat (- (int m - int n)) = n - m" by simp
  with False show ?thesis by (simp add: pow2_def power_diff)
qed

text \<open>\<open>ilog2\<close> finds the binade of a positive rational.\<close>

lemma ilog2_bounds:
  assumes "0 < x"
  shows "pow2 (ilog2 x) \<le> x \<and> x < pow2 (ilog2 x + 1)"
proof -
  obtain p q where pq: "quotient_of x = (p, q)" by (cases "quotient_of x")
  then have q: "0 < q" and x: "x = of_int p / of_int q"
    using quotient_of_denom_pos quotient_of_div by blast+
  with assms have p: "0 < p"
    by (simp add: zero_less_divide_iff)
  from p obtain a where a: "bitlen p = int (Suc a)"
    by (metis bitlen_def floorlog_eq_zero_iff not0_implies_Suc not_less one_less_numeral_iff semiring_norm(76) zero_less_nat_eq)
  from q obtain b where b: "bitlen q = int (Suc b)"
    by (metis bitlen_def floorlog_eq_zero_iff not0_implies_Suc not_less one_less_numeral_iff semiring_norm(76) zero_less_nat_eq)
  from a have na: "nat (bitlen p - 1) = a" "nat (bitlen p) = Suc a" by simp_all
  from b have nb: "nat (bitlen q - 1) = b" "nat (bitlen q) = Suc b" by simp_all
  from bitlen_bounds [OF p] have p1: "2 ^ a \<le> p" and p2: "p < 2 ^ Suc a"
    unfolding na by blast+
  from bitlen_bounds [OF q] have q1: "2 ^ b \<le> q" and q2: "q < 2 ^ Suc b"
    unfolding nb by blast+
  have P1: "(2 :: rat) ^ a \<le> of_int p" and P2: "(of_int p :: rat) < 2 ^ Suc a"
    using p1 p2 by (metis of_int_le_iff of_int_numeral of_int_power, metis of_int_less_iff of_int_numeral of_int_power)
  have Q1: "(2 :: rat) ^ b \<le> of_int q" and Q2: "(of_int q :: rat) < 2 ^ Suc b"
    using q1 q2 by (metis of_int_le_iff of_int_numeral of_int_power, metis of_int_less_iff of_int_numeral of_int_power)
  have Q0: "(0 :: rat) < of_int q" using q by simp
  have d: "bitlen p - bitlen q = int a - int b" using a b by simp
  have up0: "x < pow2 (int (Suc a) - int b)"
  proof -
    have "x < 2 ^ Suc a / of_int q" unfolding x using P2 Q0 by (simp add: divide_strict_right_mono)
    also have "\<dots> \<le> 2 ^ Suc a / 2 ^ b" using Q1 by (simp add: frac_le)
    finally show ?thesis by (simp only: pow2_diff)
  qed
  have lo0: "pow2 (int a - int (Suc b)) \<le> x"
  proof -
    have "(2 :: rat) ^ a / 2 ^ Suc b \<le> 2 ^ a / of_int q" using Q2 Q0 by (simp add: frac_le)
    also have "\<dots> \<le> x" unfolding x using P1 Q0 by (simp add: divide_right_mono)
    finally show ?thesis by (simp only: pow2_diff)
  qed
  have e1: "int (Suc a) - int b = int a - int b + 1" and e2: "int a - int (Suc b) = int a - int b - 1"
    by simp_all
  from up0 have up: "x < pow2 (int a - int b + 1)" by (simp only: e1)
  from lo0 have lo: "pow2 (int a - int b - 1) \<le> x" by (simp only: e2)
  have il: "ilog2 x = (if pow2 (int a - int b) \<le> x then int a - int b else int a - int b - 1)"
    using pq by (simp add: ilog2_def Let_def d)
  show ?thesis
  proof (cases "pow2 (int a - int b) \<le> x")
    case True
    with il up show ?thesis by simp
  next
    case False
    then have "x < pow2 (int a - int b)" by simp
    with il lo False show ?thesis by simp
  qed
qed

text \<open>
  The rounding picks a nearest whole number, so a rounded value is within half the spacing of
  its binade from the exact one.
\<close>

lemma roundHalfEven_close: "\<bar>of_int (roundHalfEven q) - q\<bar> \<le> 1 / 2"
proof -
  define r where "r = q - of_int \<lfloor>q\<rfloor>"
  have r: "0 \<le> r" "r < 1" unfolding r_def by linarith+
  have q: "q = of_int \<lfloor>q\<rfloor> + r" by (simp add: r_def)
  have "\<bar>of_int (roundHalfEven q) - (of_int \<lfloor>q\<rfloor> + r)\<bar> \<le> 1 / 2"
    unfolding roundHalfEven_def Let_def r_def [symmetric]
    using r by (simp add: abs_if)
  then show ?thesis using q by simp
qed

lemma toNumber_close:
  "\<bar>toNumber x - x\<bar> \<le> pow2 (ilog2 \<bar>x\<bar> - 52) / 2"
proof (cases "x = 0")
  case True
  then show ?thesis using pow2_pos [of "ilog2 \<bar>0\<bar> - 52"] by (simp add: toNumber_def)
next
  case False
  let ?u = "pow2 (ilog2 \<bar>x\<bar> - 52)"
  have u: "0 < ?u" by (rule pow2_pos)
  have "toNumber x - x = (of_int (roundHalfEven (x / ?u)) - x / ?u) * ?u"
    using False u by (simp add: toNumber_def Let_def field_simps)
  then have "\<bar>toNumber x - x\<bar> = \<bar>of_int (roundHalfEven (x / ?u)) - x / ?u\<bar> * ?u"
    using u by (simp add: abs_mult)
  also have "\<dots> \<le> 1 / 2 * ?u"
    using roundHalfEven_close [of "x / ?u"] u by (simp add: mult_right_mono)
  finally show ?thesis by simp
qed

section \<open>Admission\<close>

text \<open>
  Some values of the rounding: the number \<^verbatim>\<open>0.1\<close>, the sum \<^verbatim>\<open>0.1 + 0.2\<close>, which is the number
  \<^verbatim>\<open>0.30000000000000004\<close>, and two sums that are exact.
\<close>

lemma toNumber_tenth: "toNumber (1 / 10) = 3602879701896397 / 2 ^ 55"
  by code_simp

lemma number_add_tenth_fifth:
  "number_add (toNumber (1 / 10)) (toNumber (1 / 5)) = 1351079888211149 / 2 ^ 52"
  by code_simp

lemma number_add_99_50: "number_add (199 / 2) (1 / 2) = 100"
  by code_simp


text \<open>Where the sum of price and increment is a number, the source and the spec's admission agree.\<close>

lemma validateBid_admit:
  "toNumber (currentPrice a + bidIncrement a) = currentPrice a + bidIncrement a \<Longrightarrow>
   validateBid a amt uid now = admit a uid amt now"
  by (auto simp: validateBid_def admit_def number_add_def Let_def)




section \<open>Anti-sniping\<close>

text \<open>
  Claim C3. With the window, the step and the cap of \<^verbatim>\<open>ANTI_SNIPING\<close>: when at least the
  window is left, \<^verbatim>\<open>maybeExtendAuction\<close> returns the end time as it is; otherwise it returns
  the smaller of \<open>now\<close> plus the step and the original end plus the cap. So a bid in the last
  two minutes moves the end to two minutes after \<open>now\<close>, unless that is past the original end
  plus thirty minutes, and then the end is the original end plus thirty minutes.
\<close>

theorem maybeExtendAuction_window_step_cap:
  "(WINDOW_MS \<le> endTime a - now \<longrightarrow> maybeExtendAuction a now = endTime a) \<and>
   (\<not> WINDOW_MS \<le> endTime a - now \<longrightarrow>
      maybeExtendAuction a now = min (now + EXTENSION_MS) (originalEnd a + MAX_EXTENSION_MS)) \<and>
   (endTime a - now < 2 * 60 * 1000 \<and> now + 2 * 60 * 1000 \<le> originalEnd a + 30 * 60 * 1000 \<longrightarrow>
      maybeExtendAuction a now = now + 2 * 60 * 1000) \<and>
   (endTime a - now < 2 * 60 * 1000 \<and> now + 2 * 60 * 1000 > originalEnd a + 30 * 60 * 1000 \<longrightarrow>
      maybeExtendAuction a now = originalEnd a + 30 * 60 * 1000)"
  by (simp add: maybeExtendAuction_def WINDOW_MS_def EXTENSION_MS_def MAX_EXTENSION_MS_def
        Let_def min_def)

text \<open>
  A day before the end nothing moves; a minute before the end the end moves to a minute after
  it; a minute before the latest end the cap holds the end where it is.
\<close>

theorem maybeExtendAuction_window_step_cap_witness:
  "WINDOW_MS \<le> endTime exAuction - 0 \<and>
   maybeExtendAuction exAuction 0 = 86400000 \<and>
   \<not> WINDOW_MS \<le> endTime exAuction - 86340000 \<and>
   maybeExtendAuction exAuction 86340000 = 86460000 \<and>
   endTime (exAuction\<lparr>endTime := 88200000\<rparr>) - 88140000 < 2 * 60 * 1000 \<and>
   88140000 + 2 * 60 * 1000 > originalEnd (exAuction\<lparr>endTime := 88200000\<rparr>) + 30 * 60 * 1000 \<and>
   maybeExtendAuction (exAuction\<lparr>endTime := 88200000\<rparr>) 88140000 = 88200000"
proof -
  note t = maybeExtendAuction_window_step_cap
  have 1: "WINDOW_MS \<le> endTime exAuction - 0" by (simp add: WINDOW_MS_def exAuction_def)
  have 2: "maybeExtendAuction exAuction 0 = 86400000"
    using t [of exAuction 0] 1 by (simp add: exAuction_def)
  have 3: "\<not> WINDOW_MS \<le> endTime exAuction - 86340000"
    by (simp add: WINDOW_MS_def exAuction_def)
  have 4: "maybeExtendAuction exAuction 86340000 = 86460000"
    using t [of exAuction 86340000] 3
    by (simp add: exAuction_def originalEnd_def EXTENSION_MS_def MAX_EXTENSION_MS_def)
  have 5: "endTime (exAuction\<lparr>endTime := 88200000\<rparr>) - 88140000 < 2 * 60 * 1000"
    by (simp add: exAuction_def)
  have 6: "88140000 + 2 * 60 * 1000 > originalEnd (exAuction\<lparr>endTime := 88200000\<rparr>) + 30 * 60 * 1000"
    by (simp add: exAuction_def originalEnd_def)
  have 7: "maybeExtendAuction (exAuction\<lparr>endTime := 88200000\<rparr>) 88140000 = 88200000"
    using t [of "exAuction\<lparr>endTime := 88200000\<rparr>" 88140000] 5 6
    by (simp add: exAuction_def originalEnd_def)
  from 1 2 3 4 5 6 7 show ?thesis by blast
qed

text \<open>
  Claim C4. For every auction within the data model's bound on the end time (from the original
  end to the original end plus the cap) and every \<open>now\<close>, \<^verbatim>\<open>maybeExtendAuction\<close> returns at least
  the end time, and the auction with the returned end time is within the bound again. A fresh
  auction, whose end time is the original end, is within the bound. In the edge case, \<open>now\<close>
  past the original end plus the cap, the function returns the original end plus the cap, and
  that is at least the end time.
\<close>

theorem maybeExtendAuction_monotone_when_bounded:
  "(bounded a \<longrightarrow>
      endTime a \<le> maybeExtendAuction a now \<and>
      bounded (a\<lparr>endTime := maybeExtendAuction a now\<rparr>)) \<and>
   (endTime a = originalEnd a \<longrightarrow> bounded a \<and> endTime a \<le> maybeExtendAuction a now) \<and>
   (bounded a \<and> originalEnd a + MAX_EXTENSION_MS < now \<longrightarrow>
      maybeExtendAuction a now = originalEnd a + MAX_EXTENSION_MS \<and>
      endTime a \<le> maybeExtendAuction a now)"
  by (auto simp: maybeExtendAuction_def bounded_def originalEnd_def MAX_EXTENSION_MS_def Let_def)

text \<open>
  The example auction is fresh, so within the bound; the end time is kept both well past the
  original end plus the cap and a minute before the end, where it moves by a minute.
\<close>

theorem maybeExtendAuction_monotone_when_bounded_witness:
  "endTime exAuction = originalEnd exAuction \<and>
   bounded exAuction \<and>
   originalEnd exAuction + MAX_EXTENSION_MS < 90000000 \<and>
   maybeExtendAuction exAuction 90000000 = originalEnd exAuction + MAX_EXTENSION_MS \<and>
   endTime exAuction \<le> maybeExtendAuction exAuction 90000000 \<and>
   endTime exAuction \<le> maybeExtendAuction exAuction 86340000 \<and>
   bounded (exAuction\<lparr>endTime := maybeExtendAuction exAuction 86340000\<rparr>)"
proof -
  note t = maybeExtendAuction_monotone_when_bounded
  have 1: "endTime exAuction = originalEnd exAuction"
    by (simp add: exAuction_def originalEnd_def)
  have 2: "originalEnd exAuction + MAX_EXTENSION_MS < 90000000"
    by (simp add: exAuction_def originalEnd_def MAX_EXTENSION_MS_def)
  from t [of exAuction 90000000] 1 have 3: "bounded exAuction" by blast
  from t [of exAuction 90000000] 2 3
  have 4: "maybeExtendAuction exAuction 90000000 = originalEnd exAuction + MAX_EXTENSION_MS"
    and 5: "endTime exAuction \<le> maybeExtendAuction exAuction 90000000" by blast+
  from t [of exAuction 86340000] 3
  have 6: "endTime exAuction \<le> maybeExtendAuction exAuction 86340000"
    and 7: "bounded (exAuction\<lparr>endTime := maybeExtendAuction exAuction 86340000\<rparr>)" by blast+
  from 1 2 3 4 5 6 7 show ?thesis by blast
qed

section \<open>Event emitter\<close>

subsection \<open>Sets and quiet listeners\<close>

lemma set_live: "set (live s) = {l. Some l \<in> set s}"
  by (induction s rule: live.induct) auto

lemma live_append: "live (s @ t) = live s @ live t"
  by (induction s rule: live.induct) simp_all

lemma live_Set_add: "live (Set_add x s) = (if x \<in> set (live s) then live s else live s @ [x])"
  by (simp add: Set_add_def set_live live_append)

lemma live_Set_delete: "live (Set_delete x s) = removeAll x (live s)"
  by (induction s rule: live.induct) (auto simp: Set_delete_def)

lemma length_Set_add: "length (Set_add x s) \<le> Suc (length s)"
  by (simp add: Set_add_def)

lemma length_Set_delete: "length (Set_delete x s) = length s"
  by (simp add: Set_delete_def)

lemma snd_subscribe: "snd (subscribe em a x) = unsubscribe a x"
  by (simp add: subscribe_def Let_def)

lemma entries_subscribe:
  "entries (fst (subscribe em a x)) aid = (if a = aid then Set_add x (entries em aid) else entries em aid)"
  by (simp add: subscribe_def entries_def Let_def split: option.splits)

lemma entries_unsubscribe:
  "entries (unsubscribe a x em) aid = (if a = aid then Set_delete x (entries em aid) else entries em aid)"
  by (simp add: unsubscribe_def entries_def Set_delete_def split: option.splits)

lemma subs_subscribe:
  "subs (fst (subscribe em a x)) aid =
     (if a = aid then (if x \<in> set (subs em aid) then subs em aid else subs em aid @ [x])
      else subs em aid)"
  by (simp add: subs_def entries_subscribe live_Set_add)

lemma subs_unsubscribe:
  "subs (unsubscribe a x em) aid = (if a = aid then removeAll x (subs em aid) else subs em aid)"
  by (simp add: subs_def entries_unsubscribe live_Set_delete)

lemma subs_new: "subs newBidEmitter aid = []"
  by (simp add: subs_def entries_def newBidEmitter_def)

lemma entries_new: "entries newBidEmitter aid = []"
  by (simp add: entries_def newBidEmitter_def)

lemma forEach_quiet:
  assumes "listeners em aid = Some s"
    and "\<forall>l \<in> set (live (drop i s)). beh l e d = Reaction [] False"
    and "length s - i < fuel"
  shows "forEach fuel beh em aid e d i = Some (em, map (\<lambda>l. (aid, l, e, d)) (live (drop i s)), False)"
  using assms
proof (induction fuel arbitrary: i)
  case 0
  then show ?case by simp
next
  case (Suc n)
  show ?case
  proof (cases "length s \<le> i")
    case True
    with Suc.prems(1) show ?thesis by simp
  next
    case False
    then have dr: "drop i s = s ! i # drop (Suc i) s"
      by (simp add: Cons_nth_drop_Suc)
    from False Suc.prems(3) have fuel: "length s - Suc i < n" by simp
    show ?thesis
    proof (cases "s ! i")
      case None
      from Suc.prems(2) have "\<forall>l \<in> set (live (drop (Suc i) s)). beh l e d = Reaction [] False"
        by (simp add: dr None)
      from Suc.IH [OF Suc.prems(1) this fuel] False Suc.prems(1) show ?thesis
        by (simp add: dr None)
    next
      case (Some l)
      from Suc.prems(2) have here: "beh l e d = Reaction [] False"
        and rest: "\<forall>l \<in> set (live (drop (Suc i) s)). beh l e d = Reaction [] False"
        by (simp_all add: dr Some)
      from Suc.IH [OF Suc.prems(1) rest fuel] False Suc.prems(1) here show ?thesis
        by (simp add: dr Some)
    qed
  qed
qed

lemma emit_quiet:
  assumes "\<forall>l \<in> set (subs em aid). beh l e d = Reaction [] False"
    and "length (entries em aid) < fuel"
  shows "emit fuel beh em aid e d = Some (em, map (\<lambda>l. (aid, l, e, d)) (subs em aid), False)"
proof (cases "listeners em aid")
  case None
  from assms(2) obtain n where "fuel = Suc n" by (cases fuel) auto
  with None show ?thesis by (simp add: emit_def subs_def entries_def)
next
  case (Some s)
  have "forEach fuel beh em aid e d 0
          = Some (em, map (\<lambda>l. (aid, l, e, d)) (live (drop 0 s)), False)"
  proof (rule forEach_quiet)
    show "listeners em aid = Some s" by (rule Some)
    show "\<forall>l \<in> set (live (drop 0 s)). beh l e d = Reaction [] False"
      using assms(1) Some by (simp add: subs_def entries_def)
    show "length s - 0 < fuel"
      using assms(2) Some by (simp add: entries_def)
  qed
  with Some show ?thesis
    by (simp add: emit_def subs_def entries_def)
qed

lemma filter_eq_single: "distinct s \<Longrightarrow> l \<in> set s \<Longrightarrow> filter (\<lambda>x. x = l) s = [l]"
  by (induction s) (auto simp: filter_empty_conv)

lemma observed_append: "observed aid l (xs @ ys) = observed aid l xs @ observed aid l ys"
  by (simp add: observed_def)

lemma observed_fan_out:
  assumes "distinct (subs em aid)" and "l \<in> set (subs em aid)"
  shows "observed aid l (map (\<lambda>x. (a, x, e, d)) (subs em a)) = (if a = aid then [(e, d)] else [])"
proof (cases "a = aid")
  case False
  then show ?thesis by (simp add: observed_def filter_empty_conv)
next
  case True
  have "filter ((\<lambda>(a', x, e', d'). a' = aid \<and> x = l) \<circ> (\<lambda>x. (aid, x, e, d))) (subs em aid)
        = filter (\<lambda>x. x = l) (subs em aid)"
    by (rule filter_cong) auto
  with assms True show ?thesis
    by (simp add: observed_def filter_map filter_eq_single)
qed

lemma step_quiet_props:
  assumes q: "quiet beh" and b: "\<forall>a. length (entries em a) < fuel"
  obtains em1 t1 where "step fuel beh em op = Some (em1, t1)"
    and "\<forall>a. length (entries em1 a) \<le> Suc (length (entries em a))"
    and "distinct (subs em aid) \<longrightarrow> distinct (subs em1 aid)"
    and "\<forall>l. (l \<in> set (subs em1 aid)) =
           (case op of
              Subscribe a x \<Rightarrow> l \<in> set (subs em aid) \<or> (a = aid \<and> x = l)
            | Unsubscribe a x \<Rightarrow> l \<in> set (subs em aid) \<and> \<not> (a = aid \<and> x = l)
            | Emit a e d \<Rightarrow> l \<in> set (subs em aid))"
    and "\<forall>l. distinct (subs em aid) \<and> l \<in> set (subs em aid) \<longrightarrow>
           observed aid l t1 = emitted aid [op]"
proof (cases op)
  case (Subscribe a x)
  show ?thesis
  proof (rule that [of "fst (subscribe em a x)" "[]"])
    show "step fuel beh em op = Some (fst (subscribe em a x), [])" using Subscribe by simp
    show "\<forall>a'. length (entries (fst (subscribe em a x)) a') \<le> Suc (length (entries em a'))"
      by (simp add: entries_subscribe length_Set_add)
    show "distinct (subs em aid) \<longrightarrow> distinct (subs (fst (subscribe em a x)) aid)"
      by (simp add: subs_subscribe)
    show "\<forall>l. (l \<in> set (subs (fst (subscribe em a x)) aid)) =
           (case op of
              Subscribe a x \<Rightarrow> l \<in> set (subs em aid) \<or> (a = aid \<and> x = l)
            | Unsubscribe a x \<Rightarrow> l \<in> set (subs em aid) \<and> \<not> (a = aid \<and> x = l)
            | Emit a e d \<Rightarrow> l \<in> set (subs em aid))"
      using Subscribe by (auto simp: subs_subscribe)
    show "\<forall>l. distinct (subs em aid) \<and> l \<in> set (subs em aid) \<longrightarrow>
           observed aid l [] = emitted aid [op]"
      using Subscribe by (simp add: observed_def)
  qed
next
  case (Unsubscribe a x)
  show ?thesis
  proof (rule that [of "unsubscribe a x em" "[]"])
    show "step fuel beh em op = Some (unsubscribe a x em, [])" using Unsubscribe by simp
    show "\<forall>a'. length (entries (unsubscribe a x em) a') \<le> Suc (length (entries em a'))"
      by (simp add: entries_unsubscribe length_Set_delete)
    show "distinct (subs em aid) \<longrightarrow> distinct (subs (unsubscribe a x em) aid)"
      by (simp add: subs_unsubscribe distinct_removeAll)
    show "\<forall>l. (l \<in> set (subs (unsubscribe a x em) aid)) =
           (case op of
              Subscribe a x \<Rightarrow> l \<in> set (subs em aid) \<or> (a = aid \<and> x = l)
            | Unsubscribe a x \<Rightarrow> l \<in> set (subs em aid) \<and> \<not> (a = aid \<and> x = l)
            | Emit a e d \<Rightarrow> l \<in> set (subs em aid))"
      using Unsubscribe by (auto simp: subs_unsubscribe)
    show "\<forall>l. distinct (subs em aid) \<and> l \<in> set (subs em aid) \<longrightarrow>
           observed aid l [] = emitted aid [op]"
      using Unsubscribe by (simp add: observed_def)
  qed
next
  case (Emit a e d)
  have em: "emit fuel beh em a e d = Some (em, map (\<lambda>l. (a, l, e, d)) (subs em a), False)"
  proof (rule emit_quiet)
    show "\<forall>l \<in> set (subs em a). beh l e d = Reaction [] False"
      using q by (simp add: quiet_def)
    show "length (entries em a) < fuel" using b by simp
  qed
  show ?thesis
  proof (rule that [of em "map (\<lambda>l. (a, l, e, d)) (subs em a)"])
    show "step fuel beh em op = Some (em, map (\<lambda>l. (a, l, e, d)) (subs em a))"
      using Emit em by simp
    show "\<forall>a'. length (entries em a') \<le> Suc (length (entries em a'))" by simp
    show "distinct (subs em aid) \<longrightarrow> distinct (subs em aid)" by simp
    show "\<forall>l. (l \<in> set (subs em aid)) =
           (case op of
              Subscribe a x \<Rightarrow> l \<in> set (subs em aid) \<or> (a = aid \<and> x = l)
            | Unsubscribe a x \<Rightarrow> l \<in> set (subs em aid) \<and> \<not> (a = aid \<and> x = l)
            | Emit a e d \<Rightarrow> l \<in> set (subs em aid))"
      using Emit by simp
    show "\<forall>l. distinct (subs em aid) \<and> l \<in> set (subs em aid) \<longrightarrow>
           observed aid l (map (\<lambda>l. (a, l, e, d)) (subs em a)) = emitted aid [op]"
      using Emit by (simp add: observed_fan_out)
  qed
qed

lemma emitted_Cons: "emitted aid (x # xs) = emitted aid [x] @ emitted aid xs"
  by (cases x) simp_all

lemma isSubscribed_Cons:
  "isSubscribed b (x # xs) aid l =
     isSubscribed (case x of
                     Subscribe a y \<Rightarrow> b \<or> (a = aid \<and> y = l)
                   | Unsubscribe a y \<Rightarrow> b \<and> \<not> (a = aid \<and> y = l)
                   | Emit a e d \<Rightarrow> b) xs aid l"
  by (cases x) simp_all

lemma run_quiet_props:
  assumes q: "quiet beh"
  shows "\<forall>a. length (entries em a) + length ops < fuel \<Longrightarrow>
     \<exists>em' t. run fuel beh em ops = Some (em', t) \<and>
       (\<forall>a. length (entries em' a) \<le> length (entries em a) + length ops) \<and>
       (distinct (subs em aid) \<longrightarrow> distinct (subs em' aid)) \<and>
       (\<forall>l. (l \<in> set (subs em' aid)) = isSubscribed (l \<in> set (subs em aid)) ops aid l) \<and>
       (\<forall>l. distinct (subs em aid) \<and> l \<in> set (subs em aid) \<and> Unsubscribe aid l \<notin> set ops \<longrightarrow>
            observed aid l t = emitted aid ops)"
proof (induction ops arbitrary: em)
  case Nil
  then show ?case by (simp add: observed_def)
next
  case (Cons x xs)
  have b: "\<forall>a. length (entries em a) < fuel"
  proof
    fix a
    from Cons.prems have "length (entries em a) + length (x # xs) < fuel" by blast
    then show "length (entries em a) < fuel" by simp
  qed
  from q b obtain em1 t1 where
    st: "step fuel beh em x = Some (em1, t1)"
    and len: "\<forall>a. length (entries em1 a) \<le> Suc (length (entries em a))"
    and dis: "distinct (subs em aid) \<longrightarrow> distinct (subs em1 aid)"
    and mem: "\<forall>l. (l \<in> set (subs em1 aid)) =
           (case x of
              Subscribe a y \<Rightarrow> l \<in> set (subs em aid) \<or> (a = aid \<and> y = l)
            | Unsubscribe a y \<Rightarrow> l \<in> set (subs em aid) \<and> \<not> (a = aid \<and> y = l)
            | Emit a e d \<Rightarrow> l \<in> set (subs em aid))"
    and obs: "\<forall>l. distinct (subs em aid) \<and> l \<in> set (subs em aid) \<longrightarrow>
           observed aid l t1 = emitted aid [x]"
    by (rule step_quiet_props [of beh em fuel x aid])
  have b1: "\<forall>a. length (entries em1 a) + length xs < fuel"
  proof
    fix a
    from len have "length (entries em1 a) \<le> Suc (length (entries em a))" by simp
    moreover from Cons.prems have "length (entries em a) + length (x # xs) < fuel" by simp
    ultimately show "length (entries em1 a) + length xs < fuel" by simp
  qed
  from Cons.IH [OF b1] obtain em2 t2 where
    r: "run fuel beh em1 xs = Some (em2, t2)"
    and len2: "\<forall>a. length (entries em2 a) \<le> length (entries em1 a) + length xs"
    and dis2: "distinct (subs em1 aid) \<longrightarrow> distinct (subs em2 aid)"
    and mem2: "\<forall>l. (l \<in> set (subs em2 aid)) = isSubscribed (l \<in> set (subs em1 aid)) xs aid l"
    and obs2: "\<forall>l. distinct (subs em1 aid) \<and> l \<in> set (subs em1 aid) \<and> Unsubscribe aid l \<notin> set xs \<longrightarrow>
            observed aid l t2 = emitted aid xs"
    by blast
  have one: "run fuel beh em (x # xs) = Some (em2, t1 @ t2)" using st r by simp
  have two: "distinct (subs em aid) \<longrightarrow> distinct (subs em2 aid)" using dis dis2 by blast
  have three: "\<forall>l. (l \<in> set (subs em2 aid)) = isSubscribed (l \<in> set (subs em aid)) (x # xs) aid l"
    using mem mem2 by (simp add: isSubscribed_Cons)
  have four: "\<forall>l. distinct (subs em aid) \<and> l \<in> set (subs em aid) \<and> Unsubscribe aid l \<notin> set (x # xs) \<longrightarrow>
            observed aid l (t1 @ t2) = emitted aid (x # xs)"
  proof (intro allI impI)
    fix l
    assume h: "distinct (subs em aid) \<and> l \<in> set (subs em aid) \<and> Unsubscribe aid l \<notin> set (x # xs)"
    then have d1: "distinct (subs em1 aid)" using dis by blast
    from h mem have m1: "l \<in> set (subs em1 aid)" by (cases x) auto
    from h have n1: "Unsubscribe aid l \<notin> set xs" by simp
    from obs h have o1: "observed aid l t1 = emitted aid [x]" by blast
    from obs2 d1 m1 n1 have o2: "observed aid l t2 = emitted aid xs" by blast
    show "observed aid l (t1 @ t2) = emitted aid (x # xs)"
      unfolding observed_append o1 o2 by (rule emitted_Cons [symmetric])
  qed
  have five: "\<forall>a. length (entries em2 a) \<le> length (entries em a) + length (x # xs)"
  proof
    fix a
    from len have "length (entries em1 a) \<le> Suc (length (entries em a))" by simp
    moreover from len2 have "length (entries em2 a) \<le> length (entries em1 a) + length xs" by simp
    ultimately show "length (entries em2 a) \<le> length (entries em a) + length (x # xs)" by simp
  qed
  from one two three four five show ?case by blast
qed

lemma numeral_fuel: "(10 :: nat) = Suc (Suc (Suc (Suc (Suc (Suc (Suc (Suc (Suc (Suc 0)))))))))"
  by simp

text \<open>
  Claim C7, as amended. If every listener subscribed to the auction returns normally on this
  event and makes no call on the emitter, \<^verbatim>\<open>emit\<close> ends, leaves the emitter as it was, does
  not throw, and calls the listeners of the auction, each with the event and the data, in the
  order of the set. If all listeners are quiet, a history of calls from \<^verbatim>\<open>new BidEmitter()\<close>
  ends and leaves in the auction's set no listener twice and exactly the listeners that the
  history leaves subscribed to that auction (so none that is subscribed to other auctions
  only). And, again with quiet listeners, over any further calls a listener that is
  subscribed to the auction and is not unsubscribed from it meanwhile is called with exactly
  the events emitted for that auction, in the order of the \<^verbatim>\<open>emit\<close> calls. The fuel need only
  exceed the number of calls in the histories (for a single \<^verbatim>\<open>emit\<close>, the slots of the set).
\<close>

theorem emit_fan_out_in_order:
  "((\<forall>l \<in> set (subs em aid). beh l ev d = Reaction [] False) \<and> length (entries em aid) < fuel \<longrightarrow>
      emit fuel beh em aid ev d = Some (em, map (\<lambda>l. (aid, l, ev, d)) (subs em aid), False)) \<and>
   (quiet beh \<and> length hist < fuel \<longrightarrow>
      (\<exists>em1 t1. run fuel beh newBidEmitter hist = Some (em1, t1) \<and>
         distinct (subs em1 aid) \<and>
         set (subs em1 aid) = {l. isSubscribed False hist aid l})) \<and>
   (quiet beh \<and> length hist + length ops < fuel \<and>
    isSubscribed False hist aid l \<and> Unsubscribe aid l \<notin> set ops \<longrightarrow>
      (\<exists>em1 t1 em2 t2. run fuel beh newBidEmitter hist = Some (em1, t1) \<and>
         run fuel beh em1 ops = Some (em2, t2) \<and>
         observed aid l t2 = emitted aid ops))"
proof -
  have A: "(\<forall>l \<in> set (subs em aid). beh l ev d = Reaction [] False) \<and> length (entries em aid) < fuel \<longrightarrow>
      emit fuel beh em aid ev d = Some (em, map (\<lambda>l. (aid, l, ev, d)) (subs em aid), False)"
    using emit_quiet [of em aid beh ev d fuel] by blast
  have B: "quiet beh \<and> length hist < fuel \<longrightarrow>
      (\<exists>em1 t1. run fuel beh newBidEmitter hist = Some (em1, t1) \<and>
         distinct (subs em1 aid) \<and>
         set (subs em1 aid) = {l. isSubscribed False hist aid l})"
  proof
    assume h: "quiet beh \<and> length hist < fuel"
    then have q: "quiet beh" and b: "\<forall>a. length (entries (newBidEmitter :: 'a BidEmitter) a) + length hist < fuel"
      by (simp_all add: entries_new)
    from run_quiet_props [OF q b, of aid] obtain em1 t1 where
      "run fuel beh newBidEmitter hist = Some (em1, t1)"
      "distinct (subs em1 aid)"
      "\<forall>l. (l \<in> set (subs em1 aid)) = isSubscribed False hist aid l"
      by (auto simp: subs_new)
    then show "\<exists>em1 t1. run fuel beh newBidEmitter hist = Some (em1, t1) \<and>
         distinct (subs em1 aid) \<and>
         set (subs em1 aid) = {l. isSubscribed False hist aid l}"
      by blast
  qed
  have C: "quiet beh \<and> length hist + length ops < fuel \<and>
    isSubscribed False hist aid l \<and> Unsubscribe aid l \<notin> set ops \<longrightarrow>
      (\<exists>em1 t1 em2 t2. run fuel beh newBidEmitter hist = Some (em1, t1) \<and>
         run fuel beh em1 ops = Some (em2, t2) \<and>
         observed aid l t2 = emitted aid ops)"
  proof
    assume h: "quiet beh \<and> length hist + length ops < fuel \<and>
      isSubscribed False hist aid l \<and> Unsubscribe aid l \<notin> set ops"
    then have q: "quiet beh" by simp
    from h have b: "\<forall>a. length (entries (newBidEmitter :: 'a BidEmitter) a) + length hist < fuel"
      by (simp add: entries_new)
    from run_quiet_props [OF q b, of aid] obtain em1 t1 where
      r1: "run fuel beh newBidEmitter hist = Some (em1, t1)"
      and d1: "distinct (subs em1 aid)"
      and m1: "\<forall>l. (l \<in> set (subs em1 aid)) = isSubscribed False hist aid l"
      and l1: "\<forall>a. length (entries em1 a) \<le> length hist"
      by (auto simp: subs_new entries_new)
    have b1: "\<forall>a. length (entries em1 a) + length ops < fuel"
    proof
      fix a
      from l1 have "length (entries em1 a) \<le> length hist" by simp
      moreover from h have "length hist + length ops < fuel" by simp
      ultimately show "length (entries em1 a) + length ops < fuel" by simp
    qed
    from run_quiet_props [OF q b1, of aid] obtain em2 t2 where
      r2: "run fuel beh em1 ops = Some (em2, t2)"
      and o2: "\<forall>l. distinct (subs em1 aid) \<and> l \<in> set (subs em1 aid) \<and> Unsubscribe aid l \<notin> set ops \<longrightarrow>
            observed aid l t2 = emitted aid ops"
      by blast
    from h m1 have "l \<in> set (subs em1 aid)" by simp
    with o2 d1 h have "observed aid l t2 = emitted aid ops" by blast
    with r1 r2 show "\<exists>em1 t1 em2 t2. run fuel beh newBidEmitter hist = Some (em1, t1) \<and>
         run fuel beh em1 ops = Some (em2, t2) \<and>
         observed aid l t2 = emitted aid ops"
      by blast
  qed
  from A B C show ?thesis by blast
qed

text \<open>
  The example emitter with quiet listeners; then listeners 1 and 3 on auction \<^verbatim>\<open>a1\<close> (1
  subscribed twice), listener 2 on \<^verbatim>\<open>a2\<close>, and three events while listener 4 comes and
  listener 3 goes.
\<close>

theorem emit_fan_out_in_order_witness:
  "subs exEmitter ''a1'' = [1, 2] \<and>
   quietListeners 1 ''bid'' 0 = Reaction [] False \<and>
   quietListeners 2 ''bid'' 0 = Reaction [] False \<and>
   length (entries exEmitter ''a1'') < 10 \<and>
   emit 10 quietListeners exEmitter ''a1'' ''bid'' 0
     = Some (exEmitter, [(''a1'', 1, ''bid'', 0), (''a1'', 2, ''bid'', 0)], False) \<and>
   quiet quietListeners \<and>
   isSubscribed False
     ([Subscribe ''a1'' 1, Subscribe ''a2'' 2, Subscribe ''a1'' 3, Subscribe ''a1'' 1]
        :: (nat, int) EmitterOp list) ''a1'' 1 \<and>
   Unsubscribe ''a1'' (1::nat) \<notin> set
     [Emit ''a1'' ''bid'' (10::int), Subscribe ''a1'' 4, Emit ''a2'' ''bid'' 20,
      Unsubscribe ''a1'' 3, Emit ''a1'' ''status'' 30] \<and>
   (\<exists>em1 t1. run 10 quietListeners newBidEmitter
        [Subscribe ''a1'' 1, Subscribe ''a2'' 2, Subscribe ''a1'' 3, Subscribe ''a1'' 1]
        = Some (em1, t1) \<and>
      distinct (subs em1 ''a1'') \<and>
      set (subs em1 ''a1'') = {1, 3}) \<and>
   (\<exists>em1 t1 em2 t2. run 10 quietListeners newBidEmitter
        [Subscribe ''a1'' 1, Subscribe ''a2'' 2, Subscribe ''a1'' 3, Subscribe ''a1'' 1]
        = Some (em1, t1) \<and>
      run 10 quietListeners em1
        [Emit ''a1'' ''bid'' 10, Subscribe ''a1'' 4, Emit ''a2'' ''bid'' 20,
         Unsubscribe ''a1'' 3, Emit ''a1'' ''status'' 30] = Some (em2, t2) \<and>
      observed ''a1'' 1 t2 = [(''bid'', 10), (''status'', 30)])"
proof -
  let ?hist = "[Subscribe ''a1'' (1::nat), Subscribe ''a2'' 2, Subscribe ''a1'' 3, Subscribe ''a1'' 1]
                 :: (nat, int) EmitterOp list"
  let ?ops = "[Emit ''a1'' ''bid'' (10::int), Subscribe ''a1'' (4::nat), Emit ''a2'' ''bid'' 20,
      Unsubscribe ''a1'' 3, Emit ''a1'' ''status'' 30]"
  have s: "subs exEmitter ''a1'' = [1, 2]"
    by (simp add: exEmitter_def subs_def entries_def subscribe_def newBidEmitter_def Set_add_def
          Let_def)
  have h1: "\<forall>l \<in> set (subs exEmitter ''a1''). quietListeners l ''bid'' 0 = Reaction [] False"
    by (simp add: quietListeners_def)
  have h2: "length (entries exEmitter ''a1'') < 10"
    by (simp add: exEmitter_def entries_def subscribe_def newBidEmitter_def Set_add_def Let_def)
  have q: "quiet quietListeners" by (simp add: quiet_def quietListeners_def)
  have sub: "isSubscribed False ?hist ''a1'' 1" by simp
  have nounsub: "Unsubscribe ''a1'' 1 \<notin> set ?ops" by simp
  have em: "emitted ''a1'' ?ops = [(''bid'', 10), (''status'', 30)]" by simp
  have who: "{l. isSubscribed False ?hist ''a1'' l} = {1, 3}" by auto
  have l1: "length ?hist < 10" and l2: "length ?hist + length ?ops < 10" by simp_all
  note t1 = emit_fan_out_in_order [where em = exEmitter and aid = "''a1''" and beh = quietListeners
      and ev = "''bid''" and d = 0 and fuel = 10 and hist = ?hist and ops = ?ops and l = 1]
  note t2 = t1
  from t1 h1 h2 s have A: "emit 10 quietListeners exEmitter ''a1'' ''bid'' 0
     = Some (exEmitter, [(''a1'', 1, ''bid'', 0), (''a1'', 2, ''bid'', 0)], False)"
    by simp
  from t2 q l1 who have B: "\<exists>em1 t1. run 10 quietListeners newBidEmitter ?hist = Some (em1, t1) \<and>
      distinct (subs em1 ''a1'') \<and> set (subs em1 ''a1'') = {1, 3}"
    by simp
  from t2 q l2 sub nounsub em have C: "\<exists>em1 t1 em2 t2.
      run 10 quietListeners newBidEmitter ?hist = Some (em1, t1) \<and>
      run 10 quietListeners em1 ?ops = Some (em2, t2) \<and>
      observed ''a1'' 1 t2 = [(''bid'', 10), (''status'', 30)]"
    by simp
  have q1: "quietListeners 1 ''bid'' 0 = Reaction [] False"
    and q2: "quietListeners 2 ''bid'' 0 = Reaction [] False"
    by (simp_all add: quietListeners_def)
  from s q1 q2 h2 A q sub nounsub B C show ?thesis by blast
qed

text \<open>
  The claim as stated, for every listener. Listeners 1 and 2 are subscribed to \<^verbatim>\<open>a1\<close>. When
  listener 1 throws, \<^verbatim>\<open>emit\<close> calls listener 1 only and throws; when listener 1 calls the
  unsubscribe handle of listener 2, \<^verbatim>\<open>emit\<close> calls listener 1 only. In both cases the loop
  ran to its end on the fuel given, and listener 2, subscribed when \<^verbatim>\<open>emit\<close> was called, is
  not called.
\<close>

theorem emit_fan_out_in_order_counterexample:
  "subs exEmitter ''a1'' = [1, 2] \<and>
   map_option snd (emit 10 throwingFirst exEmitter ''a1'' ''bid'' 0)
     = Some ([(''a1'', 1, ''bid'', 0)], True) \<and>
   map_option snd (emit 10 unsubscribingFirst exEmitter ''a1'' ''bid'' 0)
     = Some ([(''a1'', 1, ''bid'', 0)], False)"
  by (simp add: exEmitter_def throwingFirst_def unsubscribingFirst_def emit_def subs_def
        entries_def subscribe_def unsubscribe_def newBidEmitter_def Set_add_def Set_delete_def
        Let_def numeral_fuel)

subsection \<open>Unsubscribing\<close>

lemma Set_delete_twice: "Set_delete l (Set_delete l s) = Set_delete l s"
  by (simp add: Set_delete_def)

lemma Set_delete_absent: "l \<notin> set (live s) \<Longrightarrow> Set_delete l s = s"
  by (induction s) (auto simp: Set_delete_def set_live)

lemma unsubscribe_twice: "unsubscribe aid l (unsubscribe aid l em) = unsubscribe aid l em"
  by (simp add: unsubscribe_def Set_delete_twice split: option.splits)

lemma unsubscribe_absent:
  "l \<notin> set (subs em aid) \<Longrightarrow> unsubscribe aid l em = em"
  by (simp add: unsubscribe_def Set_delete_absent subs_def entries_def map_upd_triv
           split: option.splits)

text \<open>
  Claim C9. The handle returned by \<^verbatim>\<open>subscribe\<close> is idempotent: on any emitter state, calling
  it twice gives the state that calling it once gives, in particular right after the
  subscription. After a call the listener is not in the auction's set, and on a state where
  it is not in the set (already removed, or no set for the auction) the call changes
  nothing. The handle is a total function of the state: no branch of it throws.
\<close>

theorem unsubscribe_idempotent:
  "(let unsub = snd (subscribe em aid l) in
      unsub (unsub em2) = unsub em2 \<and>
      unsub (unsub (fst (subscribe em aid l))) = unsub (fst (subscribe em aid l)) \<and>
      l \<notin> set (subs (unsub em2) aid) \<and>
      (l \<notin> set (subs em2 aid) \<longrightarrow> unsub em2 = em2))"
  by (simp add: Let_def snd_subscribe unsubscribe_twice unsubscribe_absent subs_unsubscribe)

text \<open>
  One subscription on a new emitter, its handle called twice; and the handle called on the
  new emitter, which has no set for the auction.
\<close>

theorem unsubscribe_idempotent_witness:
  "snd (subscribe newBidEmitter ''a1'' (1::nat))
     (snd (subscribe newBidEmitter ''a1'' 1) (fst (subscribe newBidEmitter ''a1'' 1)))
     = snd (subscribe newBidEmitter ''a1'' 1) (fst (subscribe newBidEmitter ''a1'' 1)) \<and>
   subs (fst (subscribe newBidEmitter ''a1'' (1::nat))) ''a1'' = [1] \<and>
   subs (snd (subscribe newBidEmitter ''a1'' (1::nat)) (fst (subscribe newBidEmitter ''a1'' 1))) ''a1''
     = [] \<and>
   (1::nat) \<notin> set (subs newBidEmitter ''a1'') \<and>
   snd (subscribe newBidEmitter ''a1'' (1::nat)) newBidEmitter = newBidEmitter"
proof -
  note t = unsubscribe_idempotent [of newBidEmitter "''a1''" "1::nat", unfolded Let_def]
  have a: "subs (fst (subscribe newBidEmitter ''a1'' (1::nat))) ''a1'' = [1]"
    by (simp add: subscribe_def newBidEmitter_def Set_add_def Let_def subs_def entries_def)
  have b: "subs (snd (subscribe newBidEmitter ''a1'' (1::nat)) (fst (subscribe newBidEmitter ''a1'' 1))) ''a1''
     = []"
    by (simp add: subscribe_def unsubscribe_def newBidEmitter_def Set_add_def Set_delete_def
          Let_def subs_def entries_def)
  have c: "(1::nat) \<notin> set (subs newBidEmitter ''a1'')"
    by (simp add: newBidEmitter_def subs_def entries_def)
  from t [of "fst (subscribe newBidEmitter ''a1'' 1)"] t [of newBidEmitter] a b c
  show ?thesis by blast
qed


section \<open>Ledger\<close>

subsection \<open>One request\<close>

lemma processBid_rejected:
  "admit (auction L) (att_userId att) (att_amount att) (att_now att) = Inl e \<Longrightarrow>
   processBid L att = \<lparr> outcome = Inl e, ledger = L, published = [] \<rparr>"
  by (simp add: processBid_def)

lemma processBid_accepted:
  "admit (auction L) (att_userId att) (att_amount att) (att_now att) = Inr u \<Longrightarrow>
   processBid L att =
     \<lparr> outcome = Inr (snd (applyBid L (case att_userId att of None \<Rightarrow> [] | Some u \<Rightarrow> u) att)),
       ledger = fst (applyBid L (case att_userId att of None \<Rightarrow> [] | Some u \<Rightarrow> u) att),
       published = [bidEvent (fst (applyBid L (case att_userId att of None \<Rightarrow> [] | Some u \<Rightarrow> u) att))
                      (snd (applyBid L (case att_userId att of None \<Rightarrow> [] | Some u \<Rightarrow> u) att)) att] \<rparr>"
  by (simp add: processBid_def Let_def split_beta)

lemma admit_Inr_min:
  "admit a uid amt now = Inr u \<Longrightarrow> currentPrice a + bidIncrement a \<le> amt"
  by (simp add: admit_def split: if_splits)

lemma processBid_cases:
  obtains (rejected) e where "outcome (processBid L att) = Inl e" "ledger (processBid L att) = L"
      "published (processBid L att) = []"
  | (accepted) b where "outcome (processBid L att) = Inr b"
      "currentPrice (auction L) + bidIncrement (auction L) \<le> amount b"
      "amount b = att_amount att"
      "bids (ledger (processBid L att)) = bids L @ [b]"
      "auction (ledger (processBid L att)) =
         (auction L)\<lparr> currentPrice := amount b,
                      endTime := max (maybeExtendAuction (auction L) (att_now att)) (endTime (auction L)) \<rparr>"
      "published (processBid L att) = [bidEvent (ledger (processBid L att)) b att]"
proof (cases "admit (auction L) (att_userId att) (att_amount att) (att_now att)")
  case (Inl e)
  then show ?thesis using rejected [of e] by (simp add: processBid_rejected)
next
  case (Inr u)
  let ?b = "snd (applyBid L (case att_userId att of None \<Rightarrow> [] | Some u \<Rightarrow> u) att)"
  have "currentPrice (auction L) + bidIncrement (auction L) \<le> amount ?b"
    using admit_Inr_min [OF Inr] by (simp add: applyBid_def Let_def)
  then show ?thesis
    using accepted [of ?b] by (simp add: processBid_accepted [OF Inr] applyBid_def Let_def)
qed

lemma ledgerAfter_append: "ledgerAfter L (xs @ ys) = ledgerAfter (ledgerAfter L xs) ys"
  by (induction xs arbitrary: L) simp_all









subsection \<open>End time\<close>

lemma maybeExtendAuction_le_cap:
  "endTime a \<le> originalEnd a + MAX_EXTENSION_MS \<Longrightarrow>
   max (maybeExtendAuction a now) (endTime a) \<le> originalEnd a + MAX_EXTENSION_MS"
  by (simp add: maybeExtendAuction_def MAX_EXTENSION_MS_def Let_def)

lemma processBid_end:
  "originalEnd (auction (ledger (processBid L att))) = originalEnd (auction L) \<and>
   endTime (auction L) \<le> endTime (auction (ledger (processBid L att))) \<and>
   (bounded (auction L) \<longrightarrow> bounded (auction (ledger (processBid L att))))"
proof (cases L att rule: processBid_cases)
  case (rejected e)
  then show ?thesis by simp
next
  case (accepted b)
  show ?thesis
    using maybeExtendAuction_le_cap [of "auction L" "att_now att"]
    by (auto simp: accepted(5) originalEnd_def bounded_def)
qed

lemma ledgerAfter_end:
  "originalEnd (auction (ledgerAfter L atts)) = originalEnd (auction L) \<and>
   endTime (auction L) \<le> endTime (auction (ledgerAfter L atts)) \<and>
   (bounded (auction L) \<longrightarrow> bounded (auction (ledgerAfter L atts)))"
proof (induction atts arbitrary: L)
  case Nil
  then show ?case by simp
next
  case (Cons x xs)
  from processBid_end [of L x] Cons.IH [of "ledger (processBid L x)"]
  show ?case by auto
qed

text \<open>
  Claim C5. From a ledger whose end time is the original end, after any sequence of requests
  the original end is the same, the end time is at least the original end, the difference is
  the cumulative extension, and it is at most \<^verbatim>\<open>MAX_EXTENSION_MS\<close>. The end time after a longer
  sequence is at least the end time after a shorter one.
\<close>

theorem bounded_extension_invariant:
  "endTime (auction L) = originalEnd (auction L) \<Longrightarrow>
     (let a = auction (ledgerAfter L atts) in
        originalEnd a = originalEnd (auction L) \<and>
        originalEnd a \<le> endTime a \<and>
        endTime a - originalEnd a = cumulativeExtension a \<and>
        cumulativeExtension a \<le> MAX_EXTENSION_MS) \<and>
     endTime (auction (ledgerAfter L atts)) \<le> endTime (auction (ledgerAfter L (atts @ rest)))"
proof -
  assume fresh: "endTime (auction L) = originalEnd (auction L)"
  then have "bounded (auction L)" by (simp add: bounded_def MAX_EXTENSION_MS_def)
  with ledgerAfter_end [of L atts] have b: "bounded (auction (ledgerAfter L atts))"
    and o: "originalEnd (auction (ledgerAfter L atts)) = originalEnd (auction L)" by simp_all
  have later: "endTime (auction (ledgerAfter L atts)) \<le> endTime (auction (ledgerAfter L (atts @ rest)))"
    using ledgerAfter_end [of "ledgerAfter L atts" rest] by (simp add: ledgerAfter_append)
  from b o later show ?thesis
    by (simp add: Let_def bounded_def cumulativeExtension_def)
qed

text \<open>
  The example ledger is fresh; a bid a minute before the end moves the end by a minute.
\<close>

theorem bounded_extension_invariant_witness:
  "endTime (auction exLedger) = originalEnd (auction exLedger) \<and>
   endTime (auction (ledgerAfter exLedger [exAttempt 105 86340000])) = 86460000 \<and>
   originalEnd (auction (ledgerAfter exLedger [exAttempt 105 86340000]))
     \<le> endTime (auction (ledgerAfter exLedger [exAttempt 105 86340000])) \<and>
   endTime (auction (ledgerAfter exLedger [exAttempt 105 86340000]))
     - originalEnd (auction (ledgerAfter exLedger [exAttempt 105 86340000]))
     = cumulativeExtension (auction (ledgerAfter exLedger [exAttempt 105 86340000])) \<and>
   cumulativeExtension (auction (ledgerAfter exLedger [exAttempt 105 86340000])) \<le> MAX_EXTENSION_MS"
proof -
  have fresh: "endTime (auction exLedger) = originalEnd (auction exLedger)"
    by (simp add: exLedger_def exAuction_def originalEnd_def)
  have moved: "endTime (auction (ledgerAfter exLedger [exAttempt 105 86340000])) = 86460000"
    by (simp add: exAuction_def exLedger_def exAttempt_def processBid_def admit_def
          applyBid_def falsy_def maybeExtendAuction_def originalEnd_def Let_def)
  note t = bounded_extension_invariant [OF fresh, of "[exAttempt 105 86340000]" "[]", unfolded Let_def]
  from t fresh moved show ?thesis by blast
qed

subsection \<open>Rejection\<close>



subsection \<open>Replay\<close>

lemma replay_append: "replay a (xs @ ys) = replay (replay a xs) ys"
  by (simp add: replay_def)

lemma replay_published:
  "replay (auction L) (published (processBid L att)) = auction (ledger (processBid L att))"
  by (cases L att rule: processBid_cases) (simp_all add: replay_def applyEvent_def bidEvent_def)

text \<open>
  Claim C8. Replaying the events published for a sequence of requests over the auction the
  ledger started from gives the auction the ledger ends with; in particular the same price
  and the same end time.
\<close>

theorem replay_reproduces_ledger:
  "replay (auction L) (eventLog L atts) = auction (ledgerAfter L atts) \<and>
   currentPrice (replay (auction L) (eventLog L atts)) = currentPrice (auction (ledgerAfter L atts)) \<and>
   endTime (replay (auction L) (eventLog L atts)) = endTime (auction (ledgerAfter L atts))"
proof -
  have "replay (auction L) (eventLog L atts) = auction (ledgerAfter L atts)"
  proof (induction atts arbitrary: L)
    case Nil
    then show ?case by (simp add: replay_def)
  next
    case (Cons x xs)
    show ?case by (simp add: replay_append replay_published Cons.IH)
  qed
  then show ?thesis by simp
qed

text \<open>
  Three requests on the example ledger, two of them accepted, the last a minute before
  the end.
\<close>

theorem replay_reproduces_ledger_witness:
  "currentPrice (replay (auction exLedger)
      (eventLog exLedger [exAttempt 105 0, exAttempt 107 1, exAttempt 110 86340000])) = 110 \<and>
   endTime (replay (auction exLedger)
      (eventLog exLedger [exAttempt 105 0, exAttempt 107 1, exAttempt 110 86340000])) = 86460000 \<and>
   length (eventLog exLedger [exAttempt 105 0, exAttempt 107 1, exAttempt 110 86340000]) = 2"
proof -
  let ?atts = "[exAttempt 105 0, exAttempt 107 1, exAttempt 110 86340000]"
  have p: "currentPrice (auction (ledgerAfter exLedger ?atts)) = 110"
    by (simp add: exAuction_def exLedger_def exAttempt_def processBid_def admit_def
          applyBid_def falsy_def maybeExtendAuction_def originalEnd_def Let_def)
  have e: "endTime (auction (ledgerAfter exLedger ?atts)) = 86460000"
    by (simp add: exAuction_def exLedger_def exAttempt_def processBid_def admit_def
          applyBid_def falsy_def maybeExtendAuction_def originalEnd_def Let_def)
  have n: "length (eventLog exLedger ?atts) = 2"
    by (simp add: exAuction_def exLedger_def exAttempt_def processBid_def admit_def
          applyBid_def falsy_def maybeExtendAuction_def originalEnd_def Let_def)
  from replay_reproduces_ledger [of exLedger ?atts] p e n show ?thesis by simp
qed

section \<open>Route protection\<close>

text \<open>
  Claim C10. For a path that starts with \<^verbatim>\<open>/dashboard\<close>, \<^verbatim>\<open>/auctions/create\<close> or \<^verbatim>\<open>/admin\<close>
  and no session user, \<^verbatim>\<open>middleware\<close> redirects to \<^verbatim>\<open>/login\<close> on the request's origin with
  the path as the only query parameter, \<^verbatim>\<open>callbackUrl\<close>. For a path that starts with
  \<^verbatim>\<open>/admin\<close> and a session user whose role is not \<^verbatim>\<open>ADMIN\<close> it redirects to \<^verbatim>\<open>/\<close>. In every
  other case it returns \<^verbatim>\<open>NextResponse.next()\<close>.
\<close>

theorem middleware_route_protection:
  "(let p = pathname (nextUrl req);
        u = (case session of None \<Rightarrow> None | Some s \<Rightarrow> user s);
        guarded = (prefix ''/dashboard'' p \<or> prefix ''/auctions/create'' p \<or> prefix ''/admin'' p)
    in (guarded \<and> u = None \<longrightarrow>
          middleware req session =
            Redirect \<lparr> origin = origin (nextUrl req), pathname = ''/login'',
                       searchParams = [(''callbackUrl'', p)] \<rparr>) \<and>
       (prefix ''/admin'' p \<and> (\<exists>su. u = Some su \<and> role su \<noteq> ADMIN) \<longrightarrow>
          middleware req session =
            Redirect \<lparr> origin = origin (nextUrl req), pathname = ''/'', searchParams = [] \<rparr>) \<and>
       (\<not> (guarded \<and> u = None) \<and> \<not> (prefix ''/admin'' p \<and> (\<exists>su. u = Some su \<and> role su \<noteq> ADMIN)) \<longrightarrow>
          middleware req session = Next))"
  by (auto simp: middleware_def protectedRoutes_def adminRoutes_def newURL_def Let_def
           split: option.splits)

text \<open>
  Guarded paths without a user, the admin area as a user and as an admin, the dashboard as
  a user, and a path outside the guarded ones.
\<close>

theorem middleware_route_protection_witness:
  "middleware (exRequest ''/dashboard/bids'') None =
     Redirect \<lparr> origin = ''https://example.test'', pathname = ''/login'',
                searchParams = [(''callbackUrl'', ''/dashboard/bids'')] \<rparr> \<and>
   middleware (exRequest ''/auctions/create'') (Some \<lparr> user = None \<rparr>) =
     Redirect \<lparr> origin = ''https://example.test'', pathname = ''/login'',
                searchParams = [(''callbackUrl'', ''/auctions/create'')] \<rparr> \<and>
   middleware (exRequest ''/admin/users'') (Some (exSession USER)) =
     Redirect \<lparr> origin = ''https://example.test'', pathname = ''/'', searchParams = [] \<rparr> \<and>
   middleware (exRequest ''/admin/users'') (Some (exSession ADMIN)) = Next \<and>
   middleware (exRequest ''/dashboard'') (Some (exSession USER)) = Next \<and>
   middleware (exRequest ''/auctions'') None = Next"
proof -
  note t = middleware_route_protection [unfolded Let_def]
  have 1: "middleware (exRequest ''/dashboard/bids'') None =
     Redirect \<lparr> origin = ''https://example.test'', pathname = ''/login'',
                searchParams = [(''callbackUrl'', ''/dashboard/bids'')] \<rparr>"
    using t [of "exRequest ''/dashboard/bids''" None] by (simp add: exRequest_def)
  have 2: "middleware (exRequest ''/auctions/create'') (Some \<lparr> user = None \<rparr>) =
     Redirect \<lparr> origin = ''https://example.test'', pathname = ''/login'',
                searchParams = [(''callbackUrl'', ''/auctions/create'')] \<rparr>"
    using t [of "exRequest ''/auctions/create''" "Some \<lparr> user = None \<rparr>"]
    by (simp add: exRequest_def)
  have 3: "middleware (exRequest ''/admin/users'') (Some (exSession USER)) =
     Redirect \<lparr> origin = ''https://example.test'', pathname = ''/'', searchParams = [] \<rparr>"
    using t [of "exRequest ''/admin/users''" "Some (exSession USER)"]
    by (simp add: exRequest_def exSession_def)
  have 4: "middleware (exRequest ''/admin/users'') (Some (exSession ADMIN)) = Next"
    using t [of "exRequest ''/admin/users''" "Some (exSession ADMIN)"]
    by (simp add: exRequest_def exSession_def)
  have 5: "middleware (exRequest ''/dashboard'') (Some (exSession USER)) = Next"
    using t [of "exRequest ''/dashboard''" "Some (exSession USER)"]
    by (simp add: exRequest_def exSession_def)
  have 6: "middleware (exRequest ''/auctions'') None = Next"
    using t [of "exRequest ''/auctions''" None] by (simp add: exRequest_def)
  from 1 2 3 4 5 6 show ?thesis by blast
qed


end
